theory Spec2Isabelle
  imports Main "HOL-Library.AList" "HOL-Library.Multiset"
begin

section \<open>Shared helpers of the packers\<close>

text \<open>
  The upstream service returns a repeated element either as one object or as an array.
  \<open>toArray\<close> coerces both shapes to a list (\<open>Array.isArray(value) ? value : [value]\<close>).

  A JavaScript object with string keys is an association list in insertion order:
  \<open>obj[k]\<close> is \<open>map_of obj k\<close>, \<open>obj[k] = v\<close> is \<open>AList.update k v obj\<close> (in place
  when the key exists, appended otherwise), and a mutation of the object stored under a key
  is \<open>AList.map_entry\<close>. (JavaScript lists keys that are array indices first; the
  order of an object is a function of its insertion sequence either way, and no property
  below depends on it.)
\<close>

datatype 'a raw = Single 'a | Many "'a list"

fun toArray :: "'a raw \<Rightarrow> 'a list" where
  "toArray (Single x) = [x]"
| "toArray (Many xs) = xs"

section \<open>packTableInf\<close>













section \<open>Classification tree and pivot detection\<close>

record ClassObjClass =
  cls_code :: string
  cls_name :: string
  cls_level :: string
  cls_unit :: "string option"
  cls_parentCode :: "string option"
  cls_addInf :: "string option"

record ClassObj =
  obj_id :: string
  obj_name :: string
  obj_description :: "string option"
  EXPLANATION :: "string option"
  CLASS :: "ClassObjClass raw"

record ClassInf =
  CLASS_OBJ :: "ClassObj list"

text \<open>
  \<open>String(n).padStart(2, "0")\<close> for \<open>n < 100\<close>, the only arguments it is given
  (\<open>1..15\<close>).
\<close>

definition padStart2 :: "nat \<Rightarrow> string" where
  "padStart2 n = [''0123456789'' ! (n div 10), ''0123456789'' ! (n mod 10)]"

definition PIVOT_CANDIDATE_KEYS :: "string list" where
  "PIVOT_CANDIDATE_KEYS = ''tab'' # map (\<lambda>i. ''cat'' @ padStart2 (i + 1)) [0..<15]"

definition ALL_DIM_KEYS :: "string list" where
  "ALL_DIM_KEYS = PIVOT_CANDIDATE_KEYS @ [''area'', ''time'']"

record Pivot =
  pivotObj :: ClassObj
  pivotId :: string

text \<open>
  \<open>detectPivotDim\<close>: the loop runs over \<open>classInf.CLASS_OBJ\<close> in the order of that
  list, skips an object whose id is not a candidate key, and returns at the first object
  with \<open>classes.some((c) => c["@unit"] != null)\<close>.
\<close>

fun detectPivotDim_loop :: "ClassObj list \<Rightarrow> Pivot option" where
  "detectPivotDim_loop [] = None"
| "detectPivotDim_loop (obj # rest) =
     (if obj_id obj \<notin> set PIVOT_CANDIDATE_KEYS then detectPivotDim_loop rest
      else if list_ex (\<lambda>c. cls_unit c \<noteq> None) (toArray (CLASS obj))
      then Some \<lparr>pivotObj = obj, pivotId = obj_id obj\<rparr>
      else detectPivotDim_loop rest)"

definition detectPivotDim :: "ClassInf \<Rightarrow> Pivot option" where
  "detectPivotDim classInf = detectPivotDim_loop (CLASS_OBJ classInf)"

text \<open>
  The vocabulary of the pivot rule as the specification words it. A dimension is
  unit-bearing when its code list has a code with a unit. \<open>firstInVocabularyOrder\<close> is
  the first key of \<open>tab, cat01, ..., cat15\<close> that names a unit-bearing dimension of the
  tree; \<open>inVocabularyOrder\<close> says that the tree lists its candidate dimensions in that
  order, each once.
\<close>

definition unitBearing :: "ClassObj \<Rightarrow> bool" where
  "unitBearing obj = list_ex (\<lambda>c. cls_unit c \<noteq> None) (toArray (CLASS obj))"

definition firstInVocabularyOrder :: "ClassInf \<Rightarrow> string option" where
  "firstInVocabularyOrder classInf =
     List.find (\<lambda>k. list_ex (\<lambda>obj. obj_id obj = k \<and> unitBearing obj) (CLASS_OBJ classInf))
       PIVOT_CANDIDATE_KEYS"

definition inVocabularyOrder :: "ClassInf \<Rightarrow> bool" where
  "inVocabularyOrder classInf =
     (filter (\<lambda>k. k \<in> set PIVOT_CANDIDATE_KEYS) (map obj_id (CLASS_OBJ classInf))
        = filter (\<lambda>k. k \<in> obj_id ` set (CLASS_OBJ classInf)) PIVOT_CANDIDATE_KEYS)"

definition mkClass :: "string \<Rightarrow> string \<Rightarrow> string option \<Rightarrow> ClassObjClass" where
  "mkClass code name u =
     \<lparr>cls_code = code, cls_name = name, cls_level = ''1'', cls_unit = u,
      cls_parentCode = None, cls_addInf = None\<rparr>"

definition mkObj :: "string \<Rightarrow> ClassObjClass list \<Rightarrow> ClassObj" where
  "mkObj i cs =
     \<lparr>obj_id = i, obj_name = i, obj_description = None, EXPLANATION = None,
      CLASS = Many cs\<rparr>"

text \<open>Two trees with unit-bearing \<open>tab\<close> and \<open>cat01\<close>, listed in either order.\<close>

definition ci_swapped :: ClassInf where
  "ci_swapped = \<lparr>CLASS_OBJ =
      [mkObj ''cat01'' [mkClass ''A'' ''a'' (Some ''yen'')],
       mkObj ''tab'' [mkClass ''X'' ''x'' (Some ''count'')]]\<rparr>"

definition ci_ordered :: ClassInf where
  "ci_ordered = \<lparr>CLASS_OBJ =
      [mkObj ''area'' [mkClass ''13000'' ''Tokyo'' None],
       mkObj ''tab'' [mkClass ''X'' ''x'' (Some ''count'')],
       mkObj ''cat01'' [mkClass ''A'' ''a'' (Some ''yen'')]]\<rparr>"

section \<open>normalizeValue\<close>

text \<open>
  \<open>$: string | number\<close> on input, \<open>number | string | null\<close> on output. The number
  type is left open (\<open>'n\<close>): JavaScript numbers are IEEE doubles, and the two built-ins
  that read them, \<open>Number(s)\<close> and \<open>Number.isFinite(n)\<close>, are parameters of the model.
\<close>

datatype 'n scalar = SStr string | SNum 'n

datatype 'n cell = JNull | JNum 'n | JStr string

record 'n builtins =
  Number :: "string \<Rightarrow> 'n"
  isFinite :: "'n \<Rightarrow> bool"

text \<open>
  \<open>String.prototype.trim\<close> strips white space and line terminators from both ends. Of
  these, the code units that a \<open>char\<close> can hold are TAB, LF, VT, FF, CR, SPACE and
  NBSP.
\<close>

definition isWhiteSpace :: "char \<Rightarrow> bool" where
  "isWhiteSpace ch =
     (ch \<in> {CHR 0x09, CHR 0x0A, CHR 0x0B, CHR 0x0C, CHR 0x0D, CHR 0x20, CHR 0xA0})"

definition trim :: "string \<Rightarrow> string" where
  "trim x = rev (dropWhile isWhiteSpace (rev (dropWhile isWhiteSpace x)))"

definition normalizeValue :: "'n builtins \<Rightarrow> 'n scalar \<Rightarrow> 'n cell" where
  "normalizeValue js x =
     (case x of
        SNum n \<Rightarrow> JNum n
      | SStr x' \<Rightarrow>
          (let s = trim x' in
           if s = [] then JNull
           else (let n = Number js s in
                 if isFinite js n then JNum n else JStr s)))"

text \<open>
  A stand-in for the built-ins on a three-word vocabulary, used where a property is
  evaluated at concrete numbers: integers in tenths as the number type.
\<close>

datatype tenths = Tenths int | NaN

definition toyNumber :: "string \<Rightarrow> tenths" where
  "toyNumber s =
     (if s = ''12.5'' then Tenths 125
      else if s = ''1'' then Tenths 10
      else if s = ''2'' then Tenths 20
      else NaN)"

definition toyJs :: "tenths builtins" where
  "toyJs = \<lparr>Number = toyNumber, isFinite = (\<lambda>n. n \<noteq> NaN)\<rparr>"

section \<open>Greedy grouping\<close>

text \<open>
  An item is a flat object: an association list from attribute key to value, in the
  object's key order. The value type is open (\<open>'v\<close>); \<open>===\<close> on it is equality.
  \<open>for (const key in obj)\<close> runs over the entries, \<open>key in obj && obj[key] === v\<close>
  is \<open>map_of obj key = Some v\<close>, and a loop that copies the entries passing a test
  into a fresh object is a \<open>filter\<close>.
\<close>

type_synonym 'v obj = "(string \<times> 'v) list"





















section \<open>packDataInf\<close>

text \<open>
  A value record. \<open>v_attr\<close> holds the dimension attributes \<open>'@tab'\<close>,
  \<open>'@cat01'\<close>, ..., \<open>'@area'\<close>, \<open>'@time'\<close> under their keys without the \<open>@\<close>
  (\<open>row[`@${k}`]\<close>); an absent or null attribute is \<open>None\<close>.
\<close>

record 'n Value =
  v_attr :: "string \<Rightarrow> string option"
  v_unit :: "string option"
  v_annotation :: "string option"
  v_val :: "'n scalar"

record Note =
  note_char :: string
  note_text :: string

record Annotation =
  ann_code :: string
  ann_text :: string

record 'n DataInf =
  NOTE :: "Note list option"
  ANNOTATION :: "Annotation list option"
  VALUE :: "'n Value raw"

record ValueColDef =
  vc_code :: string
  vc_label :: string
  vc_unit :: "string option"

record 'n DataPacked =
  pivotDim :: "string option"
  valueCols :: "ValueColDef list"
  fixed :: "(string \<times> string) list option"
  dims :: "string list"
  rows :: "'n cell list list"
  na :: "(string \<times> string) list option"
  annDict :: "(string \<times> string) list option"
  annRows :: "(nat \<times> nat \<times> string) list option"

text \<open>Truthiness of an optional string: present and not empty.\<close>

definition truthy :: "string option \<Rightarrow> bool" where
  "truthy s = (case s of None \<Rightarrow> False | Some x \<Rightarrow> x \<noteq> [])"

text \<open>Step 1: the value columns and the code-to-index map of the pivot axis.\<close>

definition buildValueCols :: "Pivot option \<Rightarrow> ValueColDef list" where
  "buildValueCols pivot =
     (case pivot of
        Some p \<Rightarrow>
          map (\<lambda>c. \<lparr>vc_code = cls_code c, vc_label = cls_name c,
                    vc_unit = (if truthy (cls_unit c) then cls_unit c else None)\<rparr>)
            (toArray (CLASS (pivotObj p)))
      | None \<Rightarrow> [\<lparr>vc_code = ''_'', vc_label = ''value'', vc_unit = None\<rparr>])"

text \<open>\<open>new Map(entries)\<close>: a later entry for a key replaces an earlier one.\<close>

definition newMap :: "('k \<times> 'v) list \<Rightarrow> ('k \<rightharpoonup> 'v)" where
  "newMap entries = fold (\<lambda>(k, v) m. m(k \<mapsto> v)) entries Map.empty"

definition buildPivotIndex :: "Pivot option \<Rightarrow> (string \<rightharpoonup> nat)" where
  "buildPivotIndex pivot =
     (case pivot of
        Some p \<Rightarrow>
          (let pivotCodes = map cls_code (toArray (CLASS (pivotObj p)))
           in newMap (zip pivotCodes [0..<length pivotCodes]))
      | None \<Rightarrow> Map.empty)"

text \<open>Step 2: the dimensions that occur in the data, in vocabulary order.\<close>

definition excludeFromDims :: "string option \<Rightarrow> string set" where
  "excludeFromDims pid =
     (case pid of
        None \<Rightarrow> {''unit''}
      | Some p \<Rightarrow> if p \<noteq> [] then {p, ''unit''} else {''unit''})"

definition markPresent :: "string set \<Rightarrow> 'n Value \<Rightarrow> string set \<Rightarrow> string set" where
  "markPresent exclude row present =
     fold (\<lambda>k pr. if k \<in> exclude then pr
                   else if v_attr row k \<noteq> None then insert k pr else pr)
       ALL_DIM_KEYS present"

definition presentDims :: "string set \<Rightarrow> 'n Value list \<Rightarrow> string set" where
  "presentDims exclude vs = fold (markPresent exclude) vs {}"

definition candidateDimsOf :: "string set \<Rightarrow> 'n Value list \<Rightarrow> string list" where
  "candidateDimsOf exclude vs =
     filter (\<lambda>k. k \<notin> exclude \<and> k \<in> presentDims exclude vs) ALL_DIM_KEYS"

text \<open>
  Step 3: the distinct values of every candidate dimension. A JavaScript \<open>Set\<close> is a
  duplicate-free list in insertion order; \<open>uniqueValuesPerDim.get(dim)!\<close> is defined for
  every candidate dimension, each of which is initialised before the rows are read.
\<close>

definition setAdd :: "'a \<Rightarrow> 'a list \<Rightarrow> 'a list" where
  "setAdd v s = (if v \<in> set s then s else s @ [v])"

definition collectRow ::
  "string list \<Rightarrow> 'n Value \<Rightarrow> (string \<rightharpoonup> string list) \<Rightarrow> (string \<rightharpoonup> string list)" where
  "collectRow cds row m =
     fold (\<lambda>dim u. case v_attr row dim of
                      None \<Rightarrow> u
                    | Some v \<Rightarrow> (case u dim of None \<Rightarrow> u | Some s \<Rightarrow> u(dim \<mapsto> setAdd v s)))
       cds m"

definition uniqueValuesPerDim :: "string list \<Rightarrow> 'n Value list \<Rightarrow> (string \<rightharpoonup> string list)" where
  "uniqueValuesPerDim cds vs =
     fold (collectRow cds) vs (fold (\<lambda>dim u. u(dim \<mapsto> [])) cds Map.empty)"

definition promoteFixed ::
  "string list \<Rightarrow> (string \<rightharpoonup> string list) \<Rightarrow> (string \<times> string) list \<times> string list" where
  "promoteFixed cds u =
     fold (\<lambda>dim (fx, ds). case u dim of
                             None \<Rightarrow> (fx, ds)
                           | Some uniq \<Rightarrow>
                               if length uniq = 1 then (AList.update dim (uniq ! 0) fx, ds)
                               else (fx, ds @ [dim]))
       cds ([], [])"

text \<open>
  Step 4: grouping and pivoting. The group map is a \<open>Map\<close> in insertion order, keyed by
  the dimension values joined with \<open>"\x00"\<close> (\<open>join\<close> writes null as the empty string).
\<close>

record 'n Group =
  dimValues :: "string option list"
  cells :: "'n cell list"
  annotations :: "(nat \<times> string) list"

fun join :: "string \<Rightarrow> string list \<Rightarrow> string" where
  "join sep [] = []"
| "join sep [x] = x"
| "join sep (x # y # zs) = x @ sep @ join sep (y # zs)"

definition dimValuesOf :: "string list \<Rightarrow> 'n Value \<Rightarrow> string option list" where
  "dimValuesOf ds row = map (\<lambda>dim. v_attr row dim) ds"

definition groupKeyOf :: "string list \<Rightarrow> 'n Value \<Rightarrow> string" where
  "groupKeyOf ds row =
     join [CHR 0x00] (map (\<lambda>v. case v of None \<Rightarrow> [] | Some s \<Rightarrow> s) (dimValuesOf ds row))"

text \<open>
  The target column of a record: \<open>None\<close> stands for the two \<open>continue\<close> exits (pivot
  code missing, or not a declared code of the pivot axis).
\<close>

definition colIdxOf :: "string option \<Rightarrow> (string \<rightharpoonup> nat) \<Rightarrow> 'n Value \<Rightarrow> nat option" where
  "colIdxOf pid pivotIndex row =
     (case pid of
        None \<Rightarrow> Some 0
      | Some p \<Rightarrow>
          if p \<noteq> [] then
            (case v_attr row p of
               None \<Rightarrow> None
             | Some pivotCode \<Rightarrow> pivotIndex pivotCode)
          else Some 0)"

text \<open>
  \<open>arr[i] = v\<close>: an index past the end extends the array with holes, which serialise
  as null.
\<close>

definition setIndex :: "'n cell list \<Rightarrow> nat \<Rightarrow> 'n cell \<Rightarrow> 'n cell list" where
  "setIndex xs i v =
     (if i < length xs then xs[i := v] else xs @ replicate (i - length xs) JNull @ [v])"

definition packRow ::
  "'n builtins \<Rightarrow> string option \<Rightarrow> (string \<rightharpoonup> nat) \<Rightarrow> nat \<Rightarrow> string list \<Rightarrow>
   'n Value \<Rightarrow> (string \<times> 'n Group) list \<Rightarrow> (string \<times> 'n Group) list" where
  "packRow js pid pivotIndex ncols ds row groupMap =
     (let dimVals = dimValuesOf ds row;
          groupKey = groupKeyOf ds row;
          gm1 = (if map_of groupMap groupKey = None
                 then AList.update groupKey
                        \<lparr>dimValues = dimVals, cells = replicate ncols JNull, annotations = []\<rparr>
                        groupMap
                 else groupMap)
      in case colIdxOf pid pivotIndex row of
           None \<Rightarrow> gm1
         | Some colIdx \<Rightarrow>
             (let gm2 = AList.map_entry groupKey
                          (\<lambda>g. g\<lparr>cells := setIndex (cells g) colIdx (normalizeValue js (v_val row))\<rparr>)
                          gm1
              in case v_annotation row of
                   None \<Rightarrow> gm2
                 | Some a \<Rightarrow>
                     if a \<noteq> []
                     then AList.map_entry groupKey
                            (\<lambda>g. g\<lparr>annotations := annotations g @ [(colIdx, a)]\<rparr>) gm2
                     else gm2))"

definition groupRows ::
  "'n builtins \<Rightarrow> string option \<Rightarrow> (string \<rightharpoonup> nat) \<Rightarrow> nat \<Rightarrow> string list \<Rightarrow>
   'n Value list \<Rightarrow> (string \<times> 'n Group) list" where
  "groupRows js pid pivotIndex ncols ds vs = fold (packRow js pid pivotIndex ncols ds) vs []"

text \<open>Step 5: rows and annotation rows, in the order of the group map.\<close>

definition dimCell :: "string option \<Rightarrow> 'n cell" where
  "dimCell v = (case v of None \<Rightarrow> JNull | Some s \<Rightarrow> JStr s)"

definition assembleStep ::
  "string \<times> 'n Group \<Rightarrow> 'n cell list list \<times> (nat \<times> nat \<times> string) list \<Rightarrow>
   'n cell list list \<times> (nat \<times> nat \<times> string) list" where
  "assembleStep entry acc =
     (case (entry, acc) of
        ((key, g), (rs, anns)) \<Rightarrow>
          (let rowIdx = length rs
           in (rs @ [map dimCell (dimValues g) @ cells g],
               anns @ map (\<lambda>(colIdx, annCode). (rowIdx, colIdx, annCode)) (annotations g))))"

definition assemble ::
  "(string \<times> 'n Group) list \<Rightarrow> 'n cell list list \<times> (nat \<times> nat \<times> string) list" where
  "assemble groupMap = fold assembleStep groupMap ([], [])"

definition fromEntries :: "(string \<times> string) list \<Rightarrow> (string \<times> string) list" where
  "fromEntries entries = fold (\<lambda>(k, v) obj. AList.update k v obj) entries []"

definition packDataInf :: "'n builtins \<Rightarrow> 'n DataInf \<Rightarrow> ClassInf \<Rightarrow> 'n DataPacked" where
  "packDataInf js dataInf classInf =
     (let pivot = detectPivotDim classInf;
          pid = map_option pivotId pivot;
          pivotIndex = buildPivotIndex pivot;
          vcols = buildValueCols pivot;
          exclude = excludeFromDims pid;
          vs = toArray (VALUE dataInf);
          cds = candidateDimsOf exclude vs;
          (fx, ds) = promoteFixed cds (uniqueValuesPerDim cds vs);
          groupMap = groupRows js pid pivotIndex (length vcols) ds vs;
          (rs, anns) = assemble groupMap;
          notes = (case NOTE dataInf of
                     None \<Rightarrow> None
                   | Some ns \<Rightarrow>
                       if ns \<noteq> []
                       then Some (fromEntries (map (\<lambda>n. (note_char n, note_text n)) ns))
                       else None);
          annd = (case ANNOTATION dataInf of
                    None \<Rightarrow> None
                  | Some as \<Rightarrow>
                      if as \<noteq> []
                      then Some (fromEntries (map (\<lambda>a. (ann_code a, ann_text a)) as))
                      else None)
      in \<lparr>pivotDim = (if truthy pid then pid else None),
          valueCols = vcols,
          fixed = (if fx \<noteq> [] then Some fx else None),
          dims = ds,
          rows = rs,
          na = notes,
          annDict = annd,
          annRows = (if anns \<noteq> [] then Some anns else None)\<rparr>)"

text \<open>Builders for concrete inputs.\<close>

definition mkValue ::
  "(string \<times> string) list \<Rightarrow> string option \<Rightarrow> string \<Rightarrow> tenths Value" where
  "mkValue attrs ann s =
     \<lparr>v_attr = map_of attrs, v_unit = None, v_annotation = ann, v_val = SStr s\<rparr>"

definition mkData :: "tenths Value list \<Rightarrow> tenths DataInf" where
  "mkData vs = \<lparr>NOTE = None, ANNOTATION = None, VALUE = Many vs\<rparr>"

definition ci_tab :: ClassInf where
  "ci_tab = \<lparr>CLASS_OBJ =
      [mkObj ''tab'' [mkClass ''X'' ''x'' (Some ''yen''), mkClass ''Y'' ''y'' (Some ''count'')],
       mkObj ''cat01'' [mkClass ''A'' ''a'' None, mkClass ''B'' ''b'' None],
       mkObj ''area'' [mkClass ''naught'' ''n'' None]]\<rparr>"

definition ci_plain :: ClassInf where
  "ci_plain = \<lparr>CLASS_OBJ =
      [mkObj ''cat01'' [mkClass ''A'' ''a'' None, mkClass ''B'' ''b'' None],
       mkObj ''area'' [mkClass ''naught'' ''n'' None]]\<rparr>"

text \<open>
  The grouping pass in closed form, for stating what it computes. \<open>groupKeys\<close> are the
  group keys in first-seen order. The group of a key collects the records with that key,
  in input order: the dimension values of the first, the value cells after every record
  wrote its cell, and the annotation entries of every record in turn.
\<close>

definition groupKeys :: "string list \<Rightarrow> 'n Value list \<Rightarrow> string list" where
  "groupKeys ds vs = fold (\<lambda>row ks. setAdd (groupKeyOf ds row) ks) vs []"

definition writeCell ::
  "'n builtins \<Rightarrow> string option \<Rightarrow> (string \<rightharpoonup> nat) \<Rightarrow> 'n Value \<Rightarrow> 'n cell list \<Rightarrow> 'n cell list" where
  "writeCell js pid pivotIndex row cs =
     (case colIdxOf pid pivotIndex row of
        None \<Rightarrow> cs
      | Some colIdx \<Rightarrow> setIndex cs colIdx (normalizeValue js (v_val row)))"

definition annotationOf ::
  "string option \<Rightarrow> (string \<rightharpoonup> nat) \<Rightarrow> 'n Value \<Rightarrow> (nat \<times> string) list" where
  "annotationOf pid pivotIndex row =
     (case colIdxOf pid pivotIndex row of
        None \<Rightarrow> []
      | Some colIdx \<Rightarrow>
          (case v_annotation row of
             None \<Rightarrow> []
           | Some a \<Rightarrow> if a \<noteq> [] then [(colIdx, a)] else []))"

definition groupOf ::
  "'n builtins \<Rightarrow> string option \<Rightarrow> (string \<rightharpoonup> nat) \<Rightarrow> nat \<Rightarrow> string list \<Rightarrow>
   'n Value list \<Rightarrow> string \<Rightarrow> 'n Group" where
  "groupOf js pid pivotIndex ncols ds vs k =
     (let ms = filter (\<lambda>row. groupKeyOf ds row = k) vs
      in \<lparr>dimValues = dimValuesOf ds (hd ms),
          cells = fold (writeCell js pid pivotIndex) ms (replicate ncols JNull),
          annotations = concat (map (annotationOf pid pivotIndex) ms)\<rparr>)"

text \<open>
  What one record does to its group, the output row of a group and the annotation rows
  of the group that becomes row \<open>i\<close>.
\<close>

definition updGroup ::
  "'n builtins \<Rightarrow> string option \<Rightarrow> (string \<rightharpoonup> nat) \<Rightarrow> 'n Value \<Rightarrow> 'n Group \<Rightarrow> 'n Group" where
  "updGroup js pid pivotIndex row g =
     g\<lparr>cells := writeCell js pid pivotIndex row (cells g),
       annotations := annotations g @ annotationOf pid pivotIndex row\<rparr>"

definition rowOf :: "'n Group \<Rightarrow> 'n cell list" where
  "rowOf g = map dimCell (dimValues g) @ cells g"

definition annEntries :: "nat \<Rightarrow> 'n Group \<Rightarrow> (nat \<times> nat \<times> string) list" where
  "annEntries i g = map (\<lambda>(colIdx, annCode). (i, colIdx, annCode)) (annotations g)"

text \<open>
  Names for what \<open>packDataInf\<close> computes about one record of its input: the pivot id,
  the value column the record targets (\<open>None\<close> when it is dropped), its group key under
  the row dimensions of the output, and the index of the row of that key.
\<close>

definition pivotIdOf :: "ClassInf \<Rightarrow> string option" where
  "pivotIdOf ci = map_option pivotId (detectPivotDim ci)"

definition recordCol :: "ClassInf \<Rightarrow> 'n Value \<Rightarrow> nat option" where
  "recordCol ci row = colIdxOf (pivotIdOf ci) (buildPivotIndex (detectPivotDim ci)) row"

definition packedGroups :: "'n builtins \<Rightarrow> 'n DataInf \<Rightarrow> ClassInf \<Rightarrow> (string \<times> 'n Group) list" where
  "packedGroups js di ci =
     groupRows js (pivotIdOf ci) (buildPivotIndex (detectPivotDim ci))
       (length (buildValueCols (detectPivotDim ci))) (dims (packDataInf js di ci))
       (toArray (VALUE di))"

primrec indexOf :: "'a list \<Rightarrow> 'a \<Rightarrow> nat" where
  "indexOf [] x = 0"
| "indexOf (y # ys) x = (if x = y then 0 else Suc (indexOf ys x))"

definition recordKey :: "'n builtins \<Rightarrow> 'n DataInf \<Rightarrow> ClassInf \<Rightarrow> 'n Value \<Rightarrow> string" where
  "recordKey js di ci row = groupKeyOf (dims (packDataInf js di ci)) row"

definition rowIndex :: "'n builtins \<Rightarrow> 'n DataInf \<Rightarrow> ClassInf \<Rightarrow> 'n Value \<Rightarrow> nat" where
  "rowIndex js di ci row =
     indexOf (groupKeys (dims (packDataInf js di ci)) (toArray (VALUE di))) (recordKey js di ci row)"

text \<open>
  Three records without a pivot axis: the first and the third share the group key and
  the value column, and both carry an annotation.
\<close>

definition rec_a1 :: "tenths Value" where
  "rec_a1 = mkValue [(''cat01'', ''A''), (''area'', ''X'')] (Some ''*'') ''1''"

definition rec_b :: "tenths Value" where
  "rec_b = mkValue [(''cat01'', ''B''), (''area'', ''X'')] None ''2''"

definition rec_a2 :: "tenths Value" where
  "rec_a2 = mkValue [(''cat01'', ''A''), (''area'', ''X'')] (Some ''#'') ''12.5''"

definition di_dup :: "tenths DataInf" where
  "di_dup = mkData [rec_a1, rec_b, rec_a2]"

text \<open>
  The annotation rows of the output as a list (an absent \<open>annRows\<close> is the empty list),
  the entry a record contributes to row \<open>i\<close>, and the records that contribute one: not
  dropped and with a non-empty annotation code.
\<close>

definition annotationEntries :: "'n DataPacked \<Rightarrow> (nat \<times> nat \<times> string) list" where
  "annotationEntries out = (case annRows out of None \<Rightarrow> [] | Some anns \<Rightarrow> anns)"

definition recordAnn :: "ClassInf \<Rightarrow> nat \<Rightarrow> 'n Value \<Rightarrow> (nat \<times> nat \<times> string) list" where
  "recordAnn ci i row =
     map (\<lambda>(colIdx, annCode). (i, colIdx, annCode))
       (annotationOf (pivotIdOf ci) (buildPivotIndex (detectPivotDim ci)) row)"

definition annotated :: "ClassInf \<Rightarrow> 'n Value \<Rightarrow> bool" where
  "annotated ci row = (recordCol ci row \<noteq> None \<and> truthy (v_annotation row))"

text \<open>
  Records against the pivot axis \<open>tab\<close> with codes \<open>X\<close> and \<open>Y\<close>: the third
  carries the undeclared code \<open>Z\<close>.
\<close>

definition rec_x :: "tenths Value" where
  "rec_x = mkValue [(''tab'', ''X''), (''cat01'', ''A'')] None ''1''"

definition rec_y :: "tenths Value" where
  "rec_y = mkValue [(''tab'', ''Y''), (''cat01'', ''B'')] None ''2''"

definition rec_z :: "tenths Value" where
  "rec_z = mkValue [(''tab'', ''Z''), (''cat01'', ''C'')] (Some ''*'') ''12.5''"

definition tabPivot :: Pivot where
  "tabPivot =
     \<lparr>pivotObj = mkObj ''tab'' [mkClass ''X'' ''x'' (Some ''yen''), mkClass ''Y'' ''y'' (Some ''count'')],
      pivotId = ''tab''\<rparr>"










section \<open>Properties of packTableInf\<close>









section \<open>Properties of pivot detection\<close>

lemma PIVOT_CANDIDATE_KEYS_eq:
  "PIVOT_CANDIDATE_KEYS =
     [''tab'', ''cat01'', ''cat02'', ''cat03'', ''cat04'', ''cat05'', ''cat06'', ''cat07'',
      ''cat08'', ''cat09'', ''cat10'', ''cat11'', ''cat12'', ''cat13'', ''cat14'', ''cat15'']"
  by (simp add: PIVOT_CANDIDATE_KEYS_def padStart2_def upt_rec)

lemma distinct_PIVOT_CANDIDATE_KEYS: "distinct PIVOT_CANDIDATE_KEYS"
  by (simp add: PIVOT_CANDIDATE_KEYS_eq)

lemma detectPivotDim_loop_find:
  "detectPivotDim_loop objs =
     map_option (\<lambda>obj. \<lparr>pivotObj = obj, pivotId = obj_id obj\<rparr>)
       (List.find (\<lambda>obj. obj_id obj \<in> set PIVOT_CANDIDATE_KEYS \<and> unitBearing obj) objs)"
  by (induction objs) (auto simp: unitBearing_def)

lemma find_filter_implied:
  "(\<And>x. P x \<Longrightarrow> R x) \<Longrightarrow> List.find P (filter R xs) = List.find P xs"
  by (induction xs) auto

lemma find_conj_filter:
  "List.find (\<lambda>x. A x \<and> B x) xs = List.find B (filter A xs)"
  by (induction xs) auto

lemma find_map_comp: "List.find Q (map f xs) = map_option f (List.find (\<lambda>x. Q (f x)) xs)"
  by (induction xs) auto

lemma find_cong_set: "(\<And>x. x \<in> set xs \<Longrightarrow> P x = Q x) \<Longrightarrow> List.find P xs = List.find Q xs"
  by (induction xs) auto

lemma vocabulary_order_coincides:
  assumes "inVocabularyOrder ci"
  shows "map_option pivotId (detectPivotDim ci) = firstInVocabularyOrder ci"
proof -
  define objs where "objs = CLASS_OBJ ci"
  define cand where "cand = (\<lambda>obj::ClassObj. obj_id obj \<in> set PIVOT_CANDIDATE_KEYS)"
  define C where "C = filter cand objs"
  define Q where "Q = (\<lambda>k. list_ex (\<lambda>obj. obj_id obj = k \<and> unitBearing obj) objs)"
  have H: "map obj_id C = filter (\<lambda>k. k \<in> obj_id ` set objs) PIVOT_CANDIDATE_KEYS"
    using assms by (simp add: inVocabularyOrder_def C_def cand_def objs_def filter_map comp_def)
  have dist: "distinct (map obj_id C)"
    unfolding H using distinct_PIVOT_CANDIDATE_KEYS by simp
  have Qc: "Q (obj_id c) = unitBearing c" if c: "c \<in> set C" for c
  proof
    assume "Q (obj_id c)"
    then obtain obj where o: "obj \<in> set objs" "obj_id obj = obj_id c" "unitBearing obj"
      by (auto simp: Q_def list_ex_iff)
    from c have "cand c" by (simp add: C_def)
    with o have "obj \<in> set C" by (simp add: C_def cand_def)
    with dist c o(2) have "obj = c" by (meson distinct_map inj_onD)
    with o show "unitBearing c" by simp
  next
    assume "unitBearing c"
    with c show "Q (obj_id c)" by (auto simp: Q_def list_ex_iff C_def)
  qed
  have "firstInVocabularyOrder ci = List.find Q PIVOT_CANDIDATE_KEYS"
    by (simp add: firstInVocabularyOrder_def Q_def objs_def)
  also have "\<dots> = List.find Q (filter (\<lambda>k. k \<in> obj_id ` set objs) PIVOT_CANDIDATE_KEYS)"
    by (rule find_filter_implied[symmetric]) (auto simp: Q_def list_ex_iff)
  also have "\<dots> = List.find Q (map obj_id C)" by (simp add: H)
  also have "\<dots> = map_option obj_id (List.find (\<lambda>c. Q (obj_id c)) C)"
    by (rule find_map_comp)
  also have "\<dots> = map_option obj_id (List.find unitBearing C)"
    using Qc by (simp cong: find_cong_set)
  finally have spec: "firstInVocabularyOrder ci = map_option obj_id (List.find unitBearing C)" .
  have "map_option pivotId (detectPivotDim ci) =
          map_option obj_id (List.find (\<lambda>obj. cand obj \<and> unitBearing obj) objs)"
    by (simp add: detectPivotDim_def detectPivotDim_loop_find objs_def cand_def
          option.map_comp comp_def)
  also have "\<dots> = map_option obj_id (List.find unitBearing C)"
    by (simp add: find_conj_filter C_def)
  finally show ?thesis using spec by simp
qed

text \<open>
  C1, as stated, fails: the scan follows the order of the input list, not the vocabulary.
  With \<open>cat01\<close> listed before \<open>tab\<close> and both unit-bearing, the pivot axis is
  \<open>cat01\<close>, while the first unit-bearing key in vocabulary order is \<open>tab\<close>.
\<close>

theorem detectPivotDim_vocabulary_order_counterexample:
  "map_option pivotId (detectPivotDim ci_swapped) = Some ''cat01'' \<and>
   firstInVocabularyOrder ci_swapped = Some ''tab''"
  by (simp add: detectPivotDim_def firstInVocabularyOrder_def ci_swapped_def mkObj_def
        mkClass_def unitBearing_def PIVOT_CANDIDATE_KEYS_eq)

text \<open>
  C1, amended. The pivot axis is the first object, in the order of the input
  \<open>CLASS_OBJ\<close> list, whose id is one of \<open>tab, cat01, ..., cat15\<close> and whose code list
  has a unit-bearing code; there is no pivot when no object qualifies. When the input lists
  its candidate dimensions in vocabulary order, this is the first unit-bearing key in
  vocabulary order.
\<close>

theorem detectPivotDim_input_order:
  "detectPivotDim ci =
     map_option (\<lambda>obj. \<lparr>pivotObj = obj, pivotId = obj_id obj\<rparr>)
       (List.find (\<lambda>obj. obj_id obj \<in> set PIVOT_CANDIDATE_KEYS \<and> unitBearing obj)
          (CLASS_OBJ ci)) \<and>
   (inVocabularyOrder ci \<longrightarrow>
      map_option pivotId (detectPivotDim ci) = firstInVocabularyOrder ci)"
  using vocabulary_order_coincides[of ci]
  by (simp add: detectPivotDim_def detectPivotDim_loop_find)

theorem detectPivotDim_input_order_witness:
  "inVocabularyOrder ci_ordered \<and>
   map_option pivotId (detectPivotDim ci_ordered) = Some ''tab'' \<and>
   firstInVocabularyOrder ci_ordered = Some ''tab''"
proof -
  have ord: "inVocabularyOrder ci_ordered"
    by (simp add: inVocabularyOrder_def ci_ordered_def mkObj_def PIVOT_CANDIDATE_KEYS_eq)
  have "map_option pivotId (detectPivotDim ci_ordered) = Some ''tab''"
    by (simp add: detectPivotDim_def ci_ordered_def mkObj_def mkClass_def
          PIVOT_CANDIDATE_KEYS_eq)
  with ord detectPivotDim_input_order[of ci_ordered] show ?thesis by simp
qed

section \<open>Properties of normalizeValue\<close>

lemma trim_all_white: "list_all isWhiteSpace x \<Longrightarrow> trim x = []"
  by (auto simp: trim_def list_all_iff dest: set_dropWhileD)

lemma trim_Nil_iff: "trim x = [] \<longleftrightarrow> list_all isWhiteSpace x"
proof
  assume "trim x = []"
  then have "dropWhile isWhiteSpace (rev (dropWhile isWhiteSpace x)) = []"
    by (simp add: trim_def)
  then have a: "\<forall>ch \<in> set (dropWhile isWhiteSpace x). isWhiteSpace ch"
    by (simp add: dropWhile_eq_Nil_conv)
  have "dropWhile isWhiteSpace x = []"
  proof (cases "dropWhile isWhiteSpace x")
    case Nil
    then show ?thesis .
  next
    case (Cons ch rest)
    then have "\<not> isWhiteSpace ch" using hd_dropWhile[of isWhiteSpace x] by simp
    with a Cons show ?thesis by simp
  qed
  then show "list_all isWhiteSpace x"
    by (simp add: dropWhile_eq_Nil_conv list_all_iff)
qed (rule trim_all_white)

text \<open>
  C6. A numeric input is returned unchanged. A string input is trimmed; an empty
  trimmed string (the input is empty or all white space) gives the null marker; otherwise
  the result is \<open>Number(s)\<close> when that is finite and the trimmed string itself in every
  other case. At the inputs of the specification: \<open>"  12.5 "\<close> gives the number that
  \<open>"12.5"\<close> parses to, \<open>""\<close> and \<open>"   "\<close> give null, \<open>"N/A"\<close> stays \<open>"N/A"\<close>
  (the built-ins parse \<open>"12.5"\<close> to a finite number and \<open>"N/A"\<close> to NaN).
\<close>

theorem normalizeValue_cases:
  "normalizeValue js (SNum n) = JNum n \<and>
   (list_all isWhiteSpace x \<longrightarrow> normalizeValue js (SStr x) = JNull) \<and>
   (\<not> list_all isWhiteSpace x \<and> isFinite js (Number js (trim x)) \<longrightarrow>
      normalizeValue js (SStr x) = JNum (Number js (trim x))) \<and>
   (\<not> list_all isWhiteSpace x \<and> \<not> isFinite js (Number js (trim x)) \<longrightarrow>
      normalizeValue js (SStr x) = JStr (trim x)) \<and>
   trim ''  12.5 '' = ''12.5'' \<and>
   (isFinite js (Number js ''12.5'') \<longrightarrow>
      normalizeValue js (SStr ''  12.5 '') = JNum (Number js ''12.5'')) \<and>
   normalizeValue js (SStr []) = JNull \<and>
   normalizeValue js (SStr ''   '') = JNull \<and>
   (\<not> isFinite js (Number js ''N/A'') \<longrightarrow>
      normalizeValue js (SStr ''N/A'') = JStr ''N/A'')"
proof -
  have t1: "trim ''  12.5 '' = ''12.5''" by (simp add: trim_def isWhiteSpace_def)
  have t2: "trim ''N/A'' = ''N/A''" by (simp add: trim_def isWhiteSpace_def)
  have t3: "trim [] = []" "trim ''   '' = []" by (simp_all add: trim_def isWhiteSpace_def)
  show ?thesis
    using t1 t2 t3 by (simp add: normalizeValue_def Let_def trim_Nil_iff)
qed

theorem normalizeValue_cases_witness:
  "normalizeValue toyJs (SNum (Tenths 7)) = JNum (Tenths 7) \<and>
   normalizeValue toyJs (SStr ''  12.5 '') = JNum (Tenths 125) \<and>
   normalizeValue toyJs (SStr ''   '') = JNull \<and>
   normalizeValue toyJs (SStr ''N/A'') = JStr ''N/A''"
  using normalizeValue_cases[of toyJs "Tenths 7" "'' N/A''"]
  by (simp add: toyJs_def toyNumber_def)

section \<open>Properties of the greedy grouping\<close>




















section \<open>Properties of packDataInf: the grouping pass\<close>

lemma setAdd_set: "set (setAdd v s) = insert v (set s)"
  by (auto simp: setAdd_def)

lemma setAdd_distinct: "distinct s \<Longrightarrow> distinct (setAdd v s)"
  by (simp add: setAdd_def)

lemma groupKeys_snoc: "groupKeys ds (vs @ [row]) = setAdd (groupKeyOf ds row) (groupKeys ds vs)"
  by (simp add: groupKeys_def)

lemma groupKeys_set: "set (groupKeys ds vs) = groupKeyOf ds ` set vs"
  by (induction vs rule: rev_induct) (auto simp: groupKeys_snoc setAdd_set groupKeys_def)

lemma groupKeys_distinct: "distinct (groupKeys ds vs)"
  by (induction vs rule: rev_induct) (auto simp: groupKeys_snoc setAdd_distinct groupKeys_def)

lemma map_of_tabulate:
  "map_of (map (\<lambda>k. (k, G k)) ks) k = (if k \<in> set ks then Some (G k) else None)"
  by (induction ks) auto

lemma map_entry_tabulate:
  "distinct ks \<Longrightarrow>
   AList.map_entry k f (map (\<lambda>k'. (k', G k')) ks)
     = map (\<lambda>k'. (k', if k' = k then f (G k') else G k')) ks"
  by (induction ks) auto

lemma update_absent: "k \<notin> fst ` set al \<Longrightarrow> AList.update k v al = al @ [(k, v)]"
  by (induction al) auto

lemma map_entry_ident: "(\<And>v. f v = v) \<Longrightarrow> AList.map_entry k f al = al"
  by (induction al) auto

lemma map_entry_twice:
  "AList.map_entry k f (AList.map_entry k g al) = AList.map_entry k (\<lambda>v. f (g v)) al"
  by (induction al) auto

lemma packRow_alt:
  "packRow js pid pivotIndex ncols ds row gm =
     AList.map_entry (groupKeyOf ds row) (updGroup js pid pivotIndex row)
       (if map_of gm (groupKeyOf ds row) = None
        then AList.update (groupKeyOf ds row)
               \<lparr>dimValues = dimValuesOf ds row, cells = replicate ncols JNull, annotations = []\<rparr> gm
        else gm)"
proof -
  have u: "updGroup js pid pivotIndex row =
     (case colIdxOf pid pivotIndex row of
        None \<Rightarrow> (\<lambda>g. g)
      | Some colIdx \<Rightarrow>
          (case v_annotation row of
             None \<Rightarrow> (\<lambda>g. g\<lparr>cells := setIndex (cells g) colIdx (normalizeValue js (v_val row))\<rparr>)
           | Some a \<Rightarrow>
               if a \<noteq> []
               then (\<lambda>g. g\<lparr>cells := setIndex (cells g) colIdx (normalizeValue js (v_val row)),
                          annotations := annotations g @ [(colIdx, a)]\<rparr>)
               else (\<lambda>g. g\<lparr>cells := setIndex (cells g) colIdx (normalizeValue js (v_val row))\<rparr>)))"
    by (rule ext) (simp add: updGroup_def writeCell_def annotationOf_def split: option.splits)
  show ?thesis
    unfolding u
    by (simp add: packRow_def Let_def map_entry_ident map_entry_twice split: option.splits)
qed

lemma packRow_tabulate:
  assumes "distinct ks"
  shows "packRow js pid pivotIndex ncols ds row (map (\<lambda>k. (k, G k)) ks) =
     map (\<lambda>k. (k, if k = groupKeyOf ds row
                   then updGroup js pid pivotIndex row
                          (if groupKeyOf ds row \<in> set ks then G k
                           else \<lparr>dimValues = dimValuesOf ds row, cells = replicate ncols JNull,
                                 annotations = []\<rparr>)
                   else G k))
       (setAdd (groupKeyOf ds row) ks)"
proof (cases "groupKeyOf ds row \<in> set ks")
  case True
  then show ?thesis
    unfolding packRow_alt
    by (simp add: map_of_tabulate map_entry_tabulate[OF assms] setAdd_def)
next
  case False
  let ?key = "groupKeyOf ds row"
  let ?e = "\<lparr>dimValues = dimValuesOf ds row, cells = replicate ncols JNull, annotations = []\<rparr>"
  let ?G = "\<lambda>k. if k = ?key then ?e else G k"
  have d: "distinct (ks @ [?key])" using assms False by simp
  have gm1: "AList.update ?key ?e (map (\<lambda>k. (k, G k)) ks) = map (\<lambda>k. (k, ?G k)) (ks @ [?key])"
    using False by (subst update_absent) (auto simp: image_image)
  have "packRow js pid pivotIndex ncols ds row (map (\<lambda>k. (k, G k)) ks)
          = AList.map_entry ?key (updGroup js pid pivotIndex row) (map (\<lambda>k. (k, ?G k)) (ks @ [?key]))"
    unfolding packRow_alt using False gm1 by (simp add: map_of_tabulate)
  also have "\<dots> = map (\<lambda>k. (k, if k = ?key then updGroup js pid pivotIndex row (?G k) else ?G k))
                     (ks @ [?key])"
    by (rule map_entry_tabulate[OF d])
  finally show ?thesis using False by (simp add: setAdd_def)
qed

lemma groupOf_snoc_other:
  "k \<noteq> groupKeyOf ds row \<Longrightarrow>
   groupOf js pid pivotIndex ncols ds (vs @ [row]) k = groupOf js pid pivotIndex ncols ds vs k"
  by (simp add: groupOf_def)

lemma groupOf_snoc_new:
  "groupKeyOf ds row \<notin> groupKeyOf ds ` set vs \<Longrightarrow>
   groupOf js pid pivotIndex ncols ds (vs @ [row]) (groupKeyOf ds row)
     = updGroup js pid pivotIndex row
         \<lparr>dimValues = dimValuesOf ds row, cells = replicate ncols JNull, annotations = []\<rparr>"
proof -
  assume "groupKeyOf ds row \<notin> groupKeyOf ds ` set vs"
  then have "filter (\<lambda>r. groupKeyOf ds r = groupKeyOf ds row) vs = []"
    by (auto simp: filter_empty_conv image_iff)
  then show ?thesis by (simp add: groupOf_def updGroup_def)
qed

lemma groupOf_snoc_old:
  "groupKeyOf ds row \<in> groupKeyOf ds ` set vs \<Longrightarrow>
   groupOf js pid pivotIndex ncols ds (vs @ [row]) (groupKeyOf ds row)
     = updGroup js pid pivotIndex row (groupOf js pid pivotIndex ncols ds vs (groupKeyOf ds row))"
proof -
  assume "groupKeyOf ds row \<in> groupKeyOf ds ` set vs"
  then have "filter (\<lambda>r. groupKeyOf ds r = groupKeyOf ds row) vs \<noteq> []"
    by (auto simp: filter_empty_conv)
  then show ?thesis by (simp add: groupOf_def updGroup_def Let_def)
qed

lemma groupRows_closed_form:
  "groupRows js pid pivotIndex ncols ds vs
     = map (\<lambda>k. (k, groupOf js pid pivotIndex ncols ds vs k)) (groupKeys ds vs)"
proof (induction vs rule: rev_induct)
  case Nil
  then show ?case by (simp add: groupRows_def groupKeys_def)
next
  case (snoc row vs)
  let ?key = "groupKeyOf ds row"
  have "groupRows js pid pivotIndex ncols ds (vs @ [row])
          = packRow js pid pivotIndex ncols ds row (groupRows js pid pivotIndex ncols ds vs)"
    by (simp add: groupRows_def)
  also have "\<dots> = packRow js pid pivotIndex ncols ds row
                     (map (\<lambda>k. (k, groupOf js pid pivotIndex ncols ds vs k)) (groupKeys ds vs))"
    by (simp only: snoc.IH)
  also have "\<dots> = map (\<lambda>k. (k, groupOf js pid pivotIndex ncols ds (vs @ [row]) k))
                     (groupKeys ds (vs @ [row]))"
    unfolding packRow_tabulate[OF groupKeys_distinct] groupKeys_snoc
    by (rule map_cong[OF refl])
       (auto simp: groupKeys_set groupOf_snoc_other groupOf_snoc_new groupOf_snoc_old
          simp del: image_eqI)
  finally show ?case .
qed

lemma assemble_fold:
  "fold assembleStep gm (rs0, anns0)
   = (rs0 @ map (\<lambda>(k, g). rowOf g) gm,
      anns0 @ concat (map (\<lambda>(i, (k, g)). annEntries i g) (enumerate (length rs0) gm)))"
proof (induction gm arbitrary: rs0 anns0)
  case Nil
  then show ?case by simp
next
  case (Cons kg gm)
  obtain k g where kg: "kg = (k, g)" by (cases kg)
  have "assembleStep kg (rs0, anns0) = (rs0 @ [rowOf g], anns0 @ annEntries (length rs0) g)"
    by (simp add: assembleStep_def kg rowOf_def annEntries_def)
  then show ?case
    by (simp add: kg Cons.IH)
qed

lemma assemble_closed_form:
  "assemble gm = (map (\<lambda>(k, g). rowOf g) gm,
                  concat (map (\<lambda>(i, (k, g)). annEntries i g) (enumerate 0 gm)))"
  unfolding assemble_def by (simp add: assemble_fold)

lemma packDataInf_dims:
  "dims (packDataInf js di ci) =
     snd (promoteFixed (candidateDimsOf (excludeFromDims (pivotIdOf ci)) (toArray (VALUE di)))
            (uniqueValuesPerDim (candidateDimsOf (excludeFromDims (pivotIdOf ci)) (toArray (VALUE di)))
               (toArray (VALUE di))))"
  by (simp add: packDataInf_def Let_def case_prod_beta pivotIdOf_def)

lemma packDataInf_rows:
  "rows (packDataInf js di ci) = map (\<lambda>(k, g). rowOf g) (packedGroups js di ci)"
  unfolding packedGroups_def packDataInf_dims
  by (simp add: packDataInf_def Let_def case_prod_beta pivotIdOf_def assemble_closed_form)

lemma packDataInf_annRows:
  "annRows (packDataInf js di ci) =
     (let anns = concat (map (\<lambda>(i, (k, g)). annEntries i g) (enumerate 0 (packedGroups js di ci)))
      in if anns \<noteq> [] then Some anns else None)"
  unfolding packedGroups_def packDataInf_dims
  by (simp add: packDataInf_def Let_def case_prod_beta pivotIdOf_def assemble_closed_form)

lemma packDataInf_valueCols:
  "valueCols (packDataInf js di ci) = buildValueCols (detectPivotDim ci)"
  by (simp add: packDataInf_def Let_def case_prod_beta)

lemma detectPivotDim_loop_candidate:
  "detectPivotDim_loop objs = Some p \<Longrightarrow>
     pivotId p \<in> set PIVOT_CANDIDATE_KEYS \<and> pivotId p = obj_id (pivotObj p) \<and>
     pivotObj p \<in> set objs \<and> unitBearing (pivotObj p)"
  by (induction objs) (auto simp: unitBearing_def split: if_splits)

lemma detectPivotDim_candidate:
  "detectPivotDim ci = Some p \<Longrightarrow> pivotId p \<in> set PIVOT_CANDIDATE_KEYS"
  using detectPivotDim_loop_candidate[of "CLASS_OBJ ci" p] unfolding detectPivotDim_def by blast

lemma candidate_nonempty: "k \<in> set PIVOT_CANDIDATE_KEYS \<Longrightarrow> k \<noteq> []"
  by (auto simp: PIVOT_CANDIDATE_KEYS_eq)

lemma packDataInf_pivotDim: "pivotDim (packDataInf js di ci) = pivotIdOf ci"
proof (cases "detectPivotDim ci")
  case None
  then show ?thesis
    by (simp add: packDataInf_def Let_def pivotIdOf_def truthy_def case_prod_beta)
next
  case (Some p)
  then have "pivotId p \<noteq> []" using detectPivotDim_candidate candidate_nonempty by blast
  with Some show ?thesis
    by (simp add: packDataInf_def Let_def pivotIdOf_def truthy_def case_prod_beta)
qed

lemma newMap_snoc: "newMap (es @ [(k, v)]) = (newMap es)(k \<mapsto> v)"
  by (simp add: newMap_def)

lemma newMap_index:
  "newMap (zip ks [0..<length ks]) k = Some i \<Longrightarrow> i < length ks \<and> ks ! i = k"
proof (induction ks arbitrary: i rule: rev_induct)
  case Nil
  then show ?case by (simp add: newMap_def)
next
  case (snoc x ks)
  have z: "zip (ks @ [x]) [0..<length (ks @ [x])] = zip ks [0..<length ks] @ [(x, length ks)]"
    by simp
  show ?case
  proof (cases "k = x")
    case True
    with snoc.prems show ?thesis unfolding z newMap_snoc by auto
  next
    case False
    with snoc.prems have "newMap (zip ks [0..<length ks]) k = Some i"
      unfolding z newMap_snoc by simp
    from snoc.IH[OF this] show ?thesis by (simp add: nth_append)
  qed
qed

lemma newMap_dom: "newMap (zip ks [0..<length ks]) k = None \<longleftrightarrow> k \<notin> set ks"
proof (induction ks rule: rev_induct)
  case Nil
  then show ?case by (simp add: newMap_def)
next
  case (snoc x ks)
  have z: "zip (ks @ [x]) [0..<length (ks @ [x])] = zip ks [0..<length ks] @ [(x, length ks)]"
    by simp
  show ?case unfolding z newMap_snoc using snoc.IH by auto
qed

lemma recordCol_bound:
  "recordCol ci row = Some c \<Longrightarrow> c < length (buildValueCols (detectPivotDim ci))"
proof (cases "detectPivotDim ci")
  case None
  assume "recordCol ci row = Some c"
  with None show ?thesis
    by (simp add: recordCol_def pivotIdOf_def colIdxOf_def buildValueCols_def)
next
  case (Some p)
  assume a: "recordCol ci row = Some c"
  have ne: "pivotId p \<noteq> []"
    using Some detectPivotDim_candidate candidate_nonempty by blast
  from a Some ne obtain code where
    "newMap (zip (map cls_code (toArray (CLASS (pivotObj p))))
        [0..<length (map cls_code (toArray (CLASS (pivotObj p))))]) code = Some c"
    by (auto simp: recordCol_def pivotIdOf_def colIdxOf_def buildPivotIndex_def Let_def
          split: option.splits)
  from newMap_index[OF this] Some show ?thesis by (simp add: buildValueCols_def)
qed

lemma indexOf_nth: "x \<in> set xs \<Longrightarrow> indexOf xs x < length xs \<and> xs ! indexOf xs x = x"
  by (induction xs) auto

lemma packedGroups_closed_form:
  "packedGroups js di ci =
     map (\<lambda>k. (k, groupOf js (pivotIdOf ci) (buildPivotIndex (detectPivotDim ci))
                    (length (buildValueCols (detectPivotDim ci)))
                    (dims (packDataInf js di ci)) (toArray (VALUE di)) k))
       (groupKeys (dims (packDataInf js di ci)) (toArray (VALUE di)))"
  unfolding packedGroups_def by (rule groupRows_closed_form)

lemma setIndex_in_range: "i < length xs \<Longrightarrow> setIndex xs i v = xs[i := v]"
  by (simp add: setIndex_def)

lemma writeCell_None:
  "colIdxOf pid pivotIndex r = None \<Longrightarrow> writeCell js pid pivotIndex r cs = cs"
  by (simp add: writeCell_def)

lemma writeCell_Some:
  "colIdxOf pid pivotIndex r = Some c \<Longrightarrow> c < length cs \<Longrightarrow>
   writeCell js pid pivotIndex r cs = cs[c := normalizeValue js (v_val r)]"
  by (simp add: writeCell_def setIndex_in_range)

lemma cells_fold:
  assumes "\<forall>r \<in> set ms. \<forall>c. colIdxOf pid pivotIndex r = Some c \<longrightarrow> c < n"
  shows "length (fold (writeCell js pid pivotIndex) ms (replicate n JNull)) = n \<and>
         (\<forall>c < n. fold (writeCell js pid pivotIndex) ms (replicate n JNull) ! c =
            (if filter (\<lambda>r. colIdxOf pid pivotIndex r = Some c) ms = [] then JNull
             else normalizeValue js
                    (v_val (last (filter (\<lambda>r. colIdxOf pid pivotIndex r = Some c) ms)))))"
  using assms
proof (induction ms rule: rev_induct)
  case Nil
  then show ?case by simp
next
  case (snoc r ms)
  let ?cs = "fold (writeCell js pid pivotIndex) ms (replicate n JNull)"
  from snoc have IH: "length ?cs = n"
    "\<And>c. c < n \<Longrightarrow> ?cs ! c =
            (if filter (\<lambda>r. colIdxOf pid pivotIndex r = Some c) ms = [] then JNull
             else normalizeValue js
                    (v_val (last (filter (\<lambda>r. colIdxOf pid pivotIndex r = Some c) ms))))"
    by auto
  show ?case
  proof (cases "colIdxOf pid pivotIndex r")
    case None
    then show ?thesis using IH by (simp add: writeCell_None)
  next
    case (Some c')
    with snoc.prems have "c' < n" by simp
    then have w: "fold (writeCell js pid pivotIndex) (ms @ [r]) (replicate n JNull)
                    = ?cs[c' := normalizeValue js (v_val r)]"
      using Some IH(1) by (simp add: writeCell_Some)
    show ?thesis
      unfolding w using IH Some by (auto simp: nth_list_update)
  qed
qed

lemma group_row_cell:
  fixes js di ci
  defines "out \<equiv> packDataInf js di ci"
    and "vs \<equiv> toArray (VALUE di)"
  assumes row: "row \<in> set vs"
  shows "rowIndex js di ci row < length (rows out)"
    and "length (rows out ! rowIndex js di ci row)
           = length (dims out) + length (valueCols out)"
    and "c < length (valueCols out) \<Longrightarrow>
         rows out ! rowIndex js di ci row ! (length (dims out) + c) =
           (if filter (\<lambda>r. recordKey js di ci r = recordKey js di ci row \<and> recordCol ci r = Some c) vs = []
            then JNull
            else normalizeValue js (v_val (last (filter
                   (\<lambda>r. recordKey js di ci r = recordKey js di ci row \<and> recordCol ci r = Some c) vs))))"
    and "take (length (dims out)) (rows out ! rowIndex js di ci row)
           = map dimCell (dimValuesOf (dims out)
               (hd (filter (\<lambda>r. recordKey js di ci r = recordKey js di ci row) vs)))"
proof -
  let ?ds = "dims out"
  let ?ks = "groupKeys ?ds vs"
  let ?k = "recordKey js di ci row"
  let ?i = "rowIndex js di ci row"
  let ?pid = "pivotIdOf ci"
  let ?pidx = "buildPivotIndex (detectPivotDim ci)"
  let ?n = "length (buildValueCols (detectPivotDim ci))"
  let ?ms = "filter (\<lambda>r. groupKeyOf ?ds r = ?k) vs"
  have kin: "?k \<in> set ?ks"
    using row by (simp add: groupKeys_set recordKey_def out_def)
  from indexOf_nth[OF kin] have i: "?i < length ?ks" "?ks ! ?i = ?k"
    by (simp_all add: rowIndex_def out_def vs_def)
  have rws: "rows out = map (\<lambda>k. rowOf (groupOf js ?pid ?pidx ?n ?ds vs k)) ?ks"
    unfolding out_def vs_def packDataInf_rows packedGroups_closed_form by (simp add: comp_def)
  show "?i < length (rows out)" using i(1) by (simp add: rws)
  have r: "rows out ! ?i = rowOf (groupOf js ?pid ?pidx ?n ?ds vs ?k)"
    using i by (simp add: rws)
  have msne: "?ms \<noteq> []"
    using row by (auto simp: filter_empty_conv recordKey_def out_def)
  have bound: "\<forall>r \<in> set ?ms. \<forall>c. colIdxOf ?pid ?pidx r = Some c \<longrightarrow> c < ?n"
    using recordCol_bound[of ci] by (auto simp: recordCol_def)
  note cf = cells_fold[OF bound, of js]
  have vc: "length (valueCols out) = ?n" by (simp add: out_def packDataInf_valueCols)
  show "length (rows out ! ?i) = length (dims out) + length (valueCols out)"
    using cf by (simp add: r rowOf_def groupOf_def Let_def dimValuesOf_def vc)
  have "filter (\<lambda>r. recordKey js di ci r = ?k) vs = ?ms"
    by (simp add: recordKey_def out_def)
  then show "take (length (dims out)) (rows out ! ?i)
           = map dimCell (dimValuesOf (dims out) (hd (filter (\<lambda>r. recordKey js di ci r = ?k) vs)))"
    by (simp add: r rowOf_def groupOf_def Let_def dimValuesOf_def)
  assume c: "c < length (valueCols out)"
  have ff: "filter (\<lambda>r. colIdxOf ?pid ?pidx r = Some c) ?ms
              = filter (\<lambda>r. recordKey js di ci r = ?k \<and> recordCol ci r = Some c) vs"
    by (auto simp: recordKey_def recordCol_def out_def intro: filter_cong)
  have "rows out ! ?i ! (length (dims out) + c)
          = fold (writeCell js ?pid ?pidx) ?ms (replicate ?n JNull) ! c"
    by (simp add: r rowOf_def groupOf_def Let_def dimValuesOf_def nth_append)
  also have "\<dots> = (if filter (\<lambda>r. colIdxOf ?pid ?pidx r = Some c) ?ms = [] then JNull
             else normalizeValue js
                    (v_val (last (filter (\<lambda>r. colIdxOf ?pid ?pidx r = Some c) ?ms))))"
    using cf c vc by simp
  finally show "rows out ! ?i ! (length (dims out) + c) =
           (if filter (\<lambda>r. recordKey js di ci r = ?k \<and> recordCol ci r = Some c) vs = []
            then JNull
            else normalizeValue js (v_val (last (filter
                   (\<lambda>r. recordKey js di ci r = ?k \<and> recordCol ci r = Some c) vs))))"
    unfolding ff .
qed

text \<open>
  C9. Last write wins: for a record that is not dropped, the cell of its row (the row of
  its group key) in its value column holds the normalized value of the last input record
  with the same group key and the same value column; the dimension cells of that row are
  those of the first record with the group key. Earlier values are overwritten without an
  error: the function is total.
\<close>

theorem last_write_wins:
  assumes "row \<in> set (toArray (VALUE di))" and "recordCol ci row = Some c"
  shows "rowIndex js di ci row < length (rows (packDataInf js di ci)) \<and>
         c < length (valueCols (packDataInf js di ci)) \<and>
         take (length (dims (packDataInf js di ci)))
             (rows (packDataInf js di ci) ! rowIndex js di ci row)
           = map dimCell (dimValuesOf (dims (packDataInf js di ci))
               (hd (filter (\<lambda>r. recordKey js di ci r = recordKey js di ci row)
                      (toArray (VALUE di))))) \<and>
         rows (packDataInf js di ci) ! rowIndex js di ci row
             ! (length (dims (packDataInf js di ci)) + c)
           = normalizeValue js (v_val (last (filter
               (\<lambda>r. recordKey js di ci r = recordKey js di ci row \<and> recordCol ci r = Some c)
               (toArray (VALUE di)))))"
proof -
  have c: "c < length (valueCols (packDataInf js di ci))"
    using recordCol_bound[OF assms(2)] by (simp add: packDataInf_valueCols)
  have ne: "filter (\<lambda>r. recordKey js di ci r = recordKey js di ci row \<and> recordCol ci r = Some c)
              (toArray (VALUE di)) \<noteq> []"
    using assms by (auto simp: filter_empty_conv)
  show ?thesis
    using group_row_cell(1)[OF assms(1)] group_row_cell(3)[OF assms(1) c]
          group_row_cell(4)[OF assms(1)] c ne
    by simp
qed

lemma di_dup_packed:
  "packDataInf toyJs di_dup ci_plain =
     \<lparr>pivotDim = None,
      valueCols = [\<lparr>vc_code = ''_'', vc_label = ''value'', vc_unit = None\<rparr>],
      fixed = Some [(''area'', ''X'')],
      dims = [''cat01''],
      rows = [[JStr ''A'', JNum (Tenths 125)], [JStr ''B'', JNum (Tenths 20)]],
      na = None, annDict = None,
      annRows = Some [(0, 0, ''*''), (0, 0, ''#'')]\<rparr>"
  by code_simp

lemma di_dup_records:
  "toArray (VALUE di_dup) = [rec_a1, rec_b, rec_a2]"
  "recordKey toyJs di_dup ci_plain rec_a1 = ''A''"
  "recordKey toyJs di_dup ci_plain rec_b = ''B''"
  "recordKey toyJs di_dup ci_plain rec_a2 = ''A''"
  "recordCol ci_plain rec_a1 = Some 0"
  "recordCol ci_plain rec_b = Some 0"
  "recordCol ci_plain rec_a2 = Some 0"
  "rowIndex toyJs di_dup ci_plain rec_a1 = 0"
  "rowIndex toyJs di_dup ci_plain rec_b = 1"
  "rowIndex toyJs di_dup ci_plain rec_a2 = 0"
  by (simp add: di_dup_def mkData_def, code_simp+)

theorem last_write_wins_witness:
  "rec_a1 \<in> set (toArray (VALUE di_dup)) \<and>
   recordCol ci_plain rec_a1 = Some 0 \<and>
   rowIndex toyJs di_dup ci_plain rec_a1 = 0 \<and>
   rows (packDataInf toyJs di_dup ci_plain) ! 0 ! 1 = normalizeValue toyJs (v_val rec_a2) \<and>
   normalizeValue toyJs (v_val rec_a1) = JNum (Tenths 10) \<and>
   normalizeValue toyJs (v_val rec_a2) = JNum (Tenths 125)"
proof -
  have m: "rec_a1 \<in> set (toArray (VALUE di_dup))" by (simp add: di_dup_records)
  have n: "normalizeValue toyJs (v_val rec_a1) = JNum (Tenths 10)"
          "normalizeValue toyJs (v_val rec_a2) = JNum (Tenths 125)"
    by code_simp+
  from last_write_wins[OF m di_dup_records(5), of toyJs] show ?thesis
    using m n by (simp add: di_dup_records di_dup_packed)
qed

lemma detectPivotDim_None_iff:
  "detectPivotDim ci = None \<longleftrightarrow>
     (\<forall>obj \<in> set (CLASS_OBJ ci). obj_id obj \<in> set PIVOT_CANDIDATE_KEYS \<longrightarrow> \<not> unitBearing obj)"
  by (auto simp: detectPivotDim_def detectPivotDim_loop_find find_None_iff)

text \<open>
  C8. When no pivot-candidate dimension of the classification tree has a unit-bearing
  code, the output has no pivot axis, its value columns are the single column
  \<open>{code: "_", label: "value"}\<close>, and every record writes its normalized value to
  column 0: no record is dropped, and the row of a record is the dimension cells of its
  group followed by one cell, which holds the normalized value of the last record with the
  same group key.
\<close>

theorem no_pivot_single_column:
  assumes "\<forall>obj \<in> set (CLASS_OBJ ci). obj_id obj \<in> set PIVOT_CANDIDATE_KEYS \<longrightarrow> \<not> unitBearing obj"
  shows "pivotDim (packDataInf js di ci) = None \<and>
         valueCols (packDataInf js di ci) = [\<lparr>vc_code = ''_'', vc_label = ''value'', vc_unit = None\<rparr>] \<and>
         (\<forall>row \<in> set (toArray (VALUE di)).
            recordCol ci row = Some 0 \<and>
            rowIndex js di ci row < length (rows (packDataInf js di ci)) \<and>
            rows (packDataInf js di ci) ! rowIndex js di ci row
              = map dimCell (dimValuesOf (dims (packDataInf js di ci))
                  (hd (filter (\<lambda>r. recordKey js di ci r = recordKey js di ci row)
                         (toArray (VALUE di)))))
                @ [normalizeValue js (v_val (last (filter
                     (\<lambda>r. recordKey js di ci r = recordKey js di ci row) (toArray (VALUE di)))))])"
proof -
  from assms have np: "detectPivotDim ci = None" by (simp add: detectPivotDim_None_iff)
  then have pd: "pivotDim (packDataInf js di ci) = None"
    by (simp add: packDataInf_pivotDim pivotIdOf_def)
  have vc: "valueCols (packDataInf js di ci)
              = [\<lparr>vc_code = ''_'', vc_label = ''value'', vc_unit = None\<rparr>]"
    using np by (simp add: packDataInf_valueCols buildValueCols_def)
  have col: "recordCol ci r = Some 0" for r :: "'a Value"
    using np by (simp add: recordCol_def pivotIdOf_def colIdxOf_def)
  have "rowIndex js di ci row < length (rows (packDataInf js di ci)) \<and>
        rows (packDataInf js di ci) ! rowIndex js di ci row
          = map dimCell (dimValuesOf (dims (packDataInf js di ci))
              (hd (filter (\<lambda>r. recordKey js di ci r = recordKey js di ci row)
                     (toArray (VALUE di)))))
            @ [normalizeValue js (v_val (last (filter
                 (\<lambda>r. recordKey js di ci r = recordKey js di ci row) (toArray (VALUE di)))))]"
    if row: "row \<in> set (toArray (VALUE di))" for row
  proof -
    let ?r = "rows (packDataInf js di ci) ! rowIndex js di ci row"
    let ?n = "length (dims (packDataInf js di ci))"
    have ne: "filter (\<lambda>r. recordKey js di ci r = recordKey js di ci row) (toArray (VALUE di)) \<noteq> []"
      using row by (auto simp: filter_empty_conv)
    have len: "length ?r = ?n + 1"
      using group_row_cell(2)[OF row, of js ci] by (simp add: vc)
    have lastc: "?r ! ?n = normalizeValue js (v_val (last (filter
                 (\<lambda>r. recordKey js di ci r = recordKey js di ci row) (toArray (VALUE di)))))"
      using group_row_cell(3)[OF row, of 0 js ci] ne by (simp add: vc col)
    have "?r = take ?n ?r @ drop ?n ?r" by simp
    moreover have "drop ?n ?r = [?r ! ?n]"
      using len by (metis Cons_nth_drop_Suc Suc_eq_plus1 drop_all lessI order_refl)
    ultimately have "?r = take ?n ?r @ [?r ! ?n]" by simp
    with group_row_cell(1)[OF row, of js ci] group_row_cell(4)[OF row, of js ci] lastc
    show ?thesis by simp
  qed
  with pd vc col show ?thesis by blast
qed

theorem no_pivot_single_column_witness:
  "pivotDim (packDataInf toyJs di_dup ci_plain) = None \<and>
   valueCols (packDataInf toyJs di_dup ci_plain)
     = [\<lparr>vc_code = ''_'', vc_label = ''value'', vc_unit = None\<rparr>] \<and>
   recordCol ci_plain rec_b = Some 0 \<and>
   rows (packDataInf toyJs di_dup ci_plain) ! 1 = [JStr ''B'', JNum (Tenths 20)]"
proof -
  have "\<forall>obj \<in> set (CLASS_OBJ ci_plain). obj_id obj \<in> set PIVOT_CANDIDATE_KEYS \<longrightarrow> \<not> unitBearing obj"
    by (simp add: ci_plain_def mkObj_def mkClass_def unitBearing_def)
  from no_pivot_single_column[OF this, of toyJs di_dup] show ?thesis
    by (simp add: di_dup_records di_dup_packed)
qed

lemma enumerate_tabulate:
  "enumerate n (map (\<lambda>k. (k, G k)) ks) = map (\<lambda>(i, k). (i, (k, G k))) (enumerate n ks)"
  by (induction ks arbitrary: n) auto

lemma recordAnn_fun:
  "recordAnn ci i =
     (\<lambda>row. map (\<lambda>(colIdx, annCode). (i, colIdx, annCode))
              (annotationOf (pivotIdOf ci) (buildPivotIndex (detectPivotDim ci)) row))"
  by (rule ext) (simp add: recordAnn_def)

lemma annEntries_groupOf:
  "annEntries i (groupOf js (pivotIdOf ci) (buildPivotIndex (detectPivotDim ci)) n ds vs k)
     = concat (map (recordAnn ci i) (filter (\<lambda>r. groupKeyOf ds r = k) vs))"
  by (simp add: annEntries_def groupOf_def Let_def recordAnn_fun map_concat comp_def)

lemma annotationEntries_closed_form:
  "annotationEntries (packDataInf js di ci) =
     concat (map (\<lambda>(i, k). concat (map (recordAnn ci i)
                     (filter (\<lambda>r. recordKey js di ci r = k) (toArray (VALUE di)))))
               (enumerate 0 (groupKeys (dims (packDataInf js di ci)) (toArray (VALUE di)))))"
proof -
  have "concat (map (\<lambda>(i, (k, g)). annEntries i g) (enumerate 0 (packedGroups js di ci)))
        = concat (map (\<lambda>(i, k). concat (map (recordAnn ci i)
                     (filter (\<lambda>r. recordKey js di ci r = k) (toArray (VALUE di)))))
               (enumerate 0 (groupKeys (dims (packDataInf js di ci)) (toArray (VALUE di)))))"
    unfolding packedGroups_closed_form enumerate_tabulate
    by (simp add: comp_def case_prod_unfold annEntries_groupOf recordKey_def)
  then show ?thesis
    by (simp add: annotationEntries_def packDataInf_annRows Let_def)
qed

lemma length_recordAnn: "length (recordAnn ci i row) = (if annotated ci row then 1 else 0)"
  by (simp add: recordAnn_def annotated_def annotationOf_def recordCol_def truthy_def
        split: option.splits)

lemma sum_list_indicator:
  "distinct ks \<Longrightarrow> a \<in> set ks \<Longrightarrow> (\<Sum>k\<leftarrow>ks. if a = k then (w::nat) else 0) = w"
  by (induction ks) auto

lemma sum_by_key:
  fixes w :: "'a \<Rightarrow> nat"
  assumes "distinct ks"
  shows "key ` set vs \<subseteq> set ks \<Longrightarrow>
         (\<Sum>k\<leftarrow>ks. \<Sum>r\<leftarrow>filter (\<lambda>r. key r = k) vs. w r) = (\<Sum>r\<leftarrow>vs. w r)"
proof (induction vs)
  case Nil
  then show ?case by simp
next
  case (Cons x vs)
  have "(\<Sum>k\<leftarrow>ks. \<Sum>r\<leftarrow>filter (\<lambda>r. key r = k) (x # vs). w r)
          = (\<Sum>k\<leftarrow>ks. (if key x = k then w x else 0) + (\<Sum>r\<leftarrow>filter (\<lambda>r. key r = k) vs. w r))"
    by (intro arg_cong[where f = sum_list] map_cong) auto
  also have "\<dots> = (\<Sum>k\<leftarrow>ks. if key x = k then w x else 0)
                    + (\<Sum>k\<leftarrow>ks. \<Sum>r\<leftarrow>filter (\<lambda>r. key r = k) vs. w r)"
    by (simp add: sum_list_addf)
  also have "\<dots> = w x + (\<Sum>r\<leftarrow>vs. w r)"
    using Cons sum_list_indicator[OF assms, of "key x" "w x"] by simp
  finally show ?case by simp
qed

lemma length_filter_sum: "length (filter P xs) = (\<Sum>x\<leftarrow>xs. if P x then 1 else 0)"
  by (induction xs) auto

lemma annotationEntries_length:
  "length (annotationEntries (packDataInf js di ci))
     = length (filter (annotated ci) (toArray (VALUE di)))"
proof -
  let ?vs = "toArray (VALUE di)"
  let ?ks = "groupKeys (dims (packDataInf js di ci)) ?vs"
  let ?w = "\<lambda>r. if annotated ci r then 1 else 0 :: nat"
  have "length (annotationEntries (packDataInf js di ci))
          = (\<Sum>p\<leftarrow>enumerate 0 ?ks. \<Sum>r\<leftarrow>filter (\<lambda>r. recordKey js di ci r = snd p) ?vs. ?w r)"
    unfolding annotationEntries_closed_form
    by (simp add: length_concat comp_def case_prod_beta length_recordAnn)
  also have "\<dots> = (\<Sum>k\<leftarrow>map snd (enumerate 0 ?ks). \<Sum>r\<leftarrow>filter (\<lambda>r. recordKey js di ci r = k) ?vs. ?w r)"
    by (simp only: map_map comp_def)
  also have "\<dots> = (\<Sum>k\<leftarrow>?ks. \<Sum>r\<leftarrow>filter (\<lambda>r. recordKey js di ci r = k) ?vs. ?w r)"
    by simp
  also have "\<dots> = (\<Sum>r\<leftarrow>?vs. ?w r)"
    by (rule sum_by_key[OF groupKeys_distinct]) (simp add: groupKeys_set recordKey_def)
  finally show ?thesis by (simp add: length_filter_sum)
qed

text \<open>
  C10. Annotation codes accumulate: the annotation rows are, group by group in row
  order, the entries of the records of the group in input order, one entry
  \<open>[rowIndex, columnIndex, annotationCode]\<close> for every record that is not dropped and
  carries a non-empty annotation code. So there are as many entries as such records,
  whether or not the value of the record was overwritten later, and entries may repeat a
  row and column index.
\<close>

theorem annotations_accumulate:
  "annotationEntries (packDataInf js di ci) =
     concat (map (\<lambda>(i, k). concat (map (recordAnn ci i)
                     (filter (\<lambda>r. recordKey js di ci r = k) (toArray (VALUE di)))))
               (enumerate 0 (groupKeys (dims (packDataInf js di ci)) (toArray (VALUE di))))) \<and>
   length (annotationEntries (packDataInf js di ci))
     = length (filter (annotated ci) (toArray (VALUE di))) \<and>
   (\<forall>row \<in> set (toArray (VALUE di)). \<forall>c a.
      recordCol ci row = Some c \<and> v_annotation row = Some a \<and> a \<noteq> [] \<longrightarrow>
      recordAnn ci (rowIndex js di ci row) row = [(rowIndex js di ci row, c, a)] \<and>
      (rowIndex js di ci row, c, a) \<in> set (annotationEntries (packDataInf js di ci)))"
proof -
  let ?vs = "toArray (VALUE di)"
  let ?ks = "groupKeys (dims (packDataInf js di ci)) ?vs"
  have "recordAnn ci (rowIndex js di ci row) row = [(rowIndex js di ci row, c, a)] \<and>
        (rowIndex js di ci row, c, a) \<in> set (annotationEntries (packDataInf js di ci))"
    if row: "row \<in> set ?vs" and c: "recordCol ci row = Some c"
      and a: "v_annotation row = Some a" "a \<noteq> []" for row c a
  proof -
    let ?i = "rowIndex js di ci row"
    let ?k = "recordKey js di ci row"
    have kin: "?k \<in> set ?ks" using row by (simp add: groupKeys_set recordKey_def)
    from indexOf_nth[OF kin] have i: "?i < length ?ks" "?ks ! ?i = ?k"
      by (simp_all add: rowIndex_def)
    then have p: "(?i, ?k) \<in> set (enumerate 0 ?ks)" by (simp add: in_set_enumerate_eq)
    have ra: "recordAnn ci ?i row = [(?i, c, a)]"
      using c a by (simp add: recordAnn_def annotationOf_def recordCol_def)
    have "(?i, c, a) \<in> set (concat (map (recordAnn ci ?i)
             (filter (\<lambda>r. recordKey js di ci r = ?k) ?vs)))"
      using row ra by auto
    with p have "(?i, c, a) \<in> set (annotationEntries (packDataInf js di ci))"
      unfolding annotationEntries_closed_form by force
    with ra show ?thesis by simp
  qed
  then show ?thesis
    using annotationEntries_closed_form[of js di ci] annotationEntries_length[of js di ci]
    by blast
qed

theorem annotations_accumulate_witness:
  "annRows (packDataInf toyJs di_dup ci_plain) = Some [(0, 0, ''*''), (0, 0, ''#'')] \<and>
   length (annotationEntries (packDataInf toyJs di_dup ci_plain)) = 2 \<and>
   filter (annotated ci_plain) (toArray (VALUE di_dup)) = [rec_a1, rec_a2] \<and>
   rows (packDataInf toyJs di_dup ci_plain) ! 0 = [JStr ''A'', JNum (Tenths 125)]"
proof -
  have a: "annotated ci_plain rec_a1" "\<not> annotated ci_plain rec_b" "annotated ci_plain rec_a2"
  proof -
    have "truthy (v_annotation rec_a1)" "\<not> truthy (v_annotation rec_b)"
         "truthy (v_annotation rec_a2)"
      by (simp_all add: truthy_def rec_a1_def rec_b_def rec_a2_def mkValue_def)
    then show "annotated ci_plain rec_a1" "\<not> annotated ci_plain rec_b"
              "annotated ci_plain rec_a2"
      by (simp_all add: annotated_def di_dup_records)
  qed
  have f: "filter (annotated ci_plain) (toArray (VALUE di_dup)) = [rec_a1, rec_a2]"
    using a by (simp add: di_dup_records)
  note len = annotations_accumulate[of toyJs di_dup ci_plain, THEN conjunct2, THEN conjunct1]
  from len f have "length (annotationEntries (packDataInf toyJs di_dup ci_plain)) = 2"
    by simp
  with f show ?thesis by (simp add: di_dup_packed)
qed

section \<open>Properties of packDataInf: dropped records\<close>

lemma updGroup_dropped:
  "colIdxOf pid pivotIndex row = None \<Longrightarrow> updGroup js pid pivotIndex row g = g"
  by (simp add: updGroup_def writeCell_def annotationOf_def)

lemma packRow_dropped:
  assumes "colIdxOf pid pivotIndex row = None"
  shows "packRow js pid pivotIndex n ds row gm =
     (if groupKeyOf ds row \<in> fst ` set gm then gm
      else gm @ [(groupKeyOf ds row,
                  \<lparr>dimValues = dimValuesOf ds row, cells = replicate n JNull, annotations = []\<rparr>)])"
proof -
  have "AList.map_entry (groupKeyOf ds row) (updGroup js pid pivotIndex row) al = al" for al
    by (rule map_entry_ident) (rule updGroup_dropped[OF assms])
  then show ?thesis
    unfolding packRow_alt by (simp add: map_of_eq_None_iff update_absent)
qed

lemma groupRows_keys:
  "fst ` set (groupRows js pid pivotIndex n ds vs) = groupKeyOf ds ` set vs"
  unfolding groupRows_closed_form by (simp add: image_image groupKeys_set)

lemma groupRows_dropped:
  assumes "colIdxOf pid pivotIndex row = None" and "groupKeyOf ds row \<in> groupKeyOf ds ` set pre"
  shows "groupRows js pid pivotIndex n ds (pre @ row # post)
           = groupRows js pid pivotIndex n ds (pre @ post)"
proof -
  have "packRow js pid pivotIndex n ds row (groupRows js pid pivotIndex n ds pre)
          = groupRows js pid pivotIndex n ds pre"
    using assms(2) by (simp add: packRow_dropped[OF assms(1)] groupRows_keys)
  then show ?thesis by (simp add: groupRows_def)
qed

lemma recordCol_dropped:
  assumes "detectPivotDim ci = Some p"
    and "v_attr row (pivotId p) = None \<or>
         (\<exists>code. v_attr row (pivotId p) = Some code \<and>
                 code \<notin> cls_code ` set (toArray (CLASS (pivotObj p))))"
  shows "recordCol ci row = None"
proof -
  have ne: "pivotId p \<noteq> []"
    using assms(1) detectPivotDim_candidate candidate_nonempty by blast
  have "newMap (zip (map cls_code (toArray (CLASS (pivotObj p))))
          [0..<length (map cls_code (toArray (CLASS (pivotObj p))))]) code = None"
    if "code \<notin> cls_code ` set (toArray (CLASS (pivotObj p)))" for code
    using that newMap_dom[of "map cls_code (toArray (CLASS (pivotObj p)))" code] by simp
  with assms ne show ?thesis
    by (auto simp: recordCol_def pivotIdOf_def colIdxOf_def buildPivotIndex_def Let_def)
qed

text \<open>
  C2, amended. With a detected pivot axis, a record whose pivot code is missing or is
  not a declared code of the axis is dropped: it targets no value column, writes no value
  and records no annotation, and it changes no existing group. Its group still gets a row
  slot: when its group key is new, the grouping pass appends a group with the
  dimension values of the record, all value cells null and no annotation; when the key was
  seen before, the pass runs as if the record were not there. In the output the row of
  the record exists, and when every record of its group key is dropped, all value cells
  of that row are null.
\<close>

theorem dropped_record_contribution:
  assumes "detectPivotDim ci = Some p"
    and "v_attr row (pivotId p) = None \<or>
         (\<exists>code. v_attr row (pivotId p) = Some code \<and>
                 code \<notin> cls_code ` set (toArray (CLASS (pivotObj p))))"
  shows "recordCol ci row = None \<and>
         packRow js (pivotIdOf ci) (buildPivotIndex (detectPivotDim ci)) n ds row gm =
           (if groupKeyOf ds row \<in> fst ` set gm then gm
            else gm @ [(groupKeyOf ds row,
                        \<lparr>dimValues = dimValuesOf ds row, cells = replicate n JNull,
                         annotations = []\<rparr>)]) \<and>
         (groupKeyOf ds row \<in> groupKeyOf ds ` set pre \<longrightarrow>
            groupRows js (pivotIdOf ci) (buildPivotIndex (detectPivotDim ci)) n ds (pre @ row # post)
              = groupRows js (pivotIdOf ci) (buildPivotIndex (detectPivotDim ci)) n ds (pre @ post)) \<and>
         (row \<in> set (toArray (VALUE di)) \<longrightarrow>
            rowIndex js di ci row < length (rows (packDataInf js di ci)) \<and>
            ((\<forall>r \<in> set (toArray (VALUE di)).
                 recordKey js di ci r = recordKey js di ci row \<longrightarrow> recordCol ci r = None) \<longrightarrow>
             (\<forall>c < length (valueCols (packDataInf js di ci)).
                 rows (packDataInf js di ci) ! rowIndex js di ci row
                   ! (length (dims (packDataInf js di ci)) + c) = JNull)))"
proof -
  have d: "colIdxOf (pivotIdOf ci) (buildPivotIndex (detectPivotDim ci)) row = None"
    using recordCol_dropped[OF assms] by (simp add: recordCol_def)
  have out: "rowIndex js di ci row < length (rows (packDataInf js di ci)) \<and>
            ((\<forall>r \<in> set (toArray (VALUE di)).
                 recordKey js di ci r = recordKey js di ci row \<longrightarrow> recordCol ci r = None) \<longrightarrow>
             (\<forall>c < length (valueCols (packDataInf js di ci)).
                 rows (packDataInf js di ci) ! rowIndex js di ci row
                   ! (length (dims (packDataInf js di ci)) + c) = JNull))"
    if row: "row \<in> set (toArray (VALUE di))"
  proof -
    have "rows (packDataInf js di ci) ! rowIndex js di ci row
            ! (length (dims (packDataInf js di ci)) + c) = JNull"
      if a: "\<forall>r \<in> set (toArray (VALUE di)).
                 recordKey js di ci r = recordKey js di ci row \<longrightarrow> recordCol ci r = None"
        and c: "c < length (valueCols (packDataInf js di ci))" for c
    proof -
      have "filter (\<lambda>r. recordKey js di ci r = recordKey js di ci row \<and> recordCol ci r = Some c)
              (toArray (VALUE di)) = []"
        using a by (auto simp: filter_empty_conv)
      with group_row_cell(3)[OF row c] show ?thesis by simp
    qed
    with group_row_cell(1)[OF row] show ?thesis by blast
  qed
  show ?thesis
    using recordCol_dropped[OF assms] packRow_dropped[OF d] groupRows_dropped[OF d] out
    by blast
qed

lemma dropped_example:
  "detectPivotDim ci_tab = Some tabPivot"
  "packDataInf toyJs (mkData [rec_x, rec_y, rec_z]) ci_tab =
     \<lparr>pivotDim = Some ''tab'',
      valueCols = [\<lparr>vc_code = ''X'', vc_label = ''x'', vc_unit = Some ''yen''\<rparr>,
                   \<lparr>vc_code = ''Y'', vc_label = ''y'', vc_unit = Some ''count''\<rparr>],
      fixed = None, dims = [''cat01''],
      rows = [[JStr ''A'', JNum (Tenths 10), JNull], [JStr ''B'', JNull, JNum (Tenths 20)],
              [JStr ''C'', JNull, JNull]],
      na = None, annDict = None, annRows = None\<rparr>"
  "packDataInf toyJs (mkData [rec_x, rec_y]) ci_tab =
     \<lparr>pivotDim = Some ''tab'',
      valueCols = [\<lparr>vc_code = ''X'', vc_label = ''x'', vc_unit = Some ''yen''\<rparr>,
                   \<lparr>vc_code = ''Y'', vc_label = ''y'', vc_unit = Some ''count''\<rparr>],
      fixed = None, dims = [''cat01''],
      rows = [[JStr ''A'', JNum (Tenths 10), JNull], [JStr ''B'', JNull, JNum (Tenths 20)]],
      na = None, annDict = None, annRows = None\<rparr>"
  "recordCol ci_tab rec_z = None"
  by code_simp+

text \<open>
  C2, as stated, fails: the group of a record is created before its pivot code is
  looked up. The record with the undeclared code \<open>Z\<close> is dropped, and yet the output
  has a third row for its dimension tuple, with null value cells; without the record the
  output has two rows.
\<close>

theorem dropped_record_row_counterexample:
  "recordCol ci_tab rec_z = None \<and>
   rows (packDataInf toyJs (mkData [rec_x, rec_y, rec_z]) ci_tab) =
     [[JStr ''A'', JNum (Tenths 10), JNull], [JStr ''B'', JNull, JNum (Tenths 20)],
      [JStr ''C'', JNull, JNull]] \<and>
   rows (packDataInf toyJs (mkData [rec_x, rec_y]) ci_tab) =
     [[JStr ''A'', JNum (Tenths 10), JNull], [JStr ''B'', JNull, JNum (Tenths 20)]]"
  by (simp add: dropped_example)

theorem dropped_record_contribution_witness:
  "detectPivotDim ci_tab = Some tabPivot \<and>
   v_attr rec_z (pivotId tabPivot) = Some ''Z'' \<and>
   ''Z'' \<notin> cls_code ` set (toArray (CLASS (pivotObj tabPivot))) \<and>
   recordCol ci_tab rec_z = None \<and>
   packRow toyJs (pivotIdOf ci_tab) (buildPivotIndex (detectPivotDim ci_tab)) 2 [''cat01''] rec_z [] =
     [(''C'', \<lparr>dimValues = [Some ''C''], cells = [JNull, JNull], annotations = []\<rparr>)]"
proof -
  have z: "v_attr rec_z (pivotId tabPivot) = Some ''Z''"
    by (simp add: rec_z_def mkValue_def tabPivot_def)
  have nz: "''Z'' \<notin> cls_code ` set (toArray (CLASS (pivotObj tabPivot)))"
    by (simp add: tabPivot_def mkObj_def mkClass_def)
  have k: "groupKeyOf [''cat01''] rec_z = ''C''" "dimValuesOf [''cat01''] rec_z = [Some ''C'']"
    by (simp_all add: groupKeyOf_def dimValuesOf_def rec_z_def mkValue_def)
  have hyp: "v_attr rec_z (pivotId tabPivot) = None \<or>
         (\<exists>code. v_attr rec_z (pivotId tabPivot) = Some code \<and>
                 code \<notin> cls_code ` set (toArray (CLASS (pivotObj tabPivot))))"
    using z nz by simp
  from dropped_record_contribution[OF dropped_example(1) hyp, of toyJs 2 "[''cat01'']" "[]"]
  show ?thesis using z nz k dropped_example(1) by (simp add: numeral_2_eq_2)
qed

section \<open>Properties of packDataInf: fixed and row dimensions\<close>


























end
